theory Spec2Isabelle
  imports Main "HOL-Library.AList"
begin

section \<open>The Slack input of the bot: data model\<close>

text \<open>
  The source is \<^verbatim>\<open>bot/input/slack/slack.go\<close>. Strings are byte lists, as Go's are.
  A Go \<^verbatim>\<open>error\<close> value is represented by the text its \<^verbatim>\<open>Error()\<close> method gives, which is
  what the format verb \<^verbatim>\<open>%v\<close> prints; the nil error is \<open>None\<close>.
\<close>

type_synonym error = string

text \<open>
  \<^verbatim>\<open>command.Command\<close>: the two methods the adapter calls. \<^verbatim>\<open>Exec\<close> returns the pair
  \<^verbatim>\<open>([]byte, error)\<close>.
\<close>

record Command =
  Name :: string
  Exec :: "string list \<Rightarrow> string \<times> error option"

text \<open>The fields of \<^verbatim>\<open>slack.MessageEvent\<close> that the adapter reads.\<close>

record MessageEvent =
  ev_Type :: string
  ev_Text :: string
  ev_User :: string
  ev_Channel :: string

text \<open>The fields of \<^verbatim>\<open>slack.AuthTestResponse\<close> that the adapter reads.\<close>

record AuthTestResponse =
  auth_User :: string
  auth_UserID :: string

text \<open>The fields of \<^verbatim>\<open>slack.User\<close> that the adapter reads.\<close>

record SlackUser =
  user_ID :: string
  user_Name :: string

text \<open>
  What a dispatch does to the outside world, in the order it happens: a call of a
  handler's \<^verbatim>\<open>Exec\<close> (recorded with the handler's name and the arguments passed), and
  \<^verbatim>\<open>rtm.SendMessage(rtm.NewOutgoingMessage(text, channel))\<close>.
\<close>

datatype effect =
  ExecCall string "string list"
| SendMessage string string

text \<open>
  The field \<^verbatim>\<open>cmds map[string]command.Command\<close>. The loop of \<^verbatim>\<open>exec\<close> ranges over the
  map in an order Go leaves open, so the registry is an association list and the list
  order stands for the order of one iteration: a statement about every registry covers
  every order.
\<close>

type_synonym registry = "(string \<times> Command) list"

section \<open>Library functions of Go that the adapter calls\<close>

text \<open>\<^verbatim>\<open>strings.HasPrefix(s, prefix)\<close>:
  \<^verbatim>\<open>len(s) >= len(prefix) && s[:len(prefix)] == prefix\<close>.\<close>

definition HasPrefix :: "string \<Rightarrow> string \<Rightarrow> bool" where
  "HasPrefix s p \<longleftrightarrow> length s \<ge> length p \<and> take (length p) s = p"

text \<open>
  \<^verbatim>\<open>strings.Split(s, sep)\<close> for a separator of one byte, which is how the adapter calls it
  (\<^verbatim>\<open>strings.Split(ev.Text, " ")\<close>): the pieces of \<open>s\<close> between consecutive separators, so
  one piece more than there are separators, empty pieces included.
\<close>

fun Split_from :: "char \<Rightarrow> string \<Rightarrow> string \<Rightarrow> string list" where
  "Split_from sep piece [] = [rev piece]"
| "Split_from sep piece (x # s) =
     (if x = sep then rev piece # Split_from sep [] s
      else Split_from sep (x # piece) s)"

definition Split :: "string \<Rightarrow> char \<Rightarrow> string list" where
  "Split s sep = Split_from sep [] s"

text \<open>\<^verbatim>\<open>strings.Join\<close>, used only to say what \<open>Split\<close> computes.\<close>

fun Join :: "string list \<Rightarrow> char \<Rightarrow> string" where
  "Join [] sep = []"
| "Join [w] sep = w"
| "Join (w # v # ws) sep = w @ sep # Join (v # ws) sep"

section \<open>Dispatch: \<^verbatim>\<open>exec\<close>\<close>

text \<open>
  The body of \<^verbatim>\<open>for _, cmd := range s.cmds\<close> (lines 43 to 62). A handler whose name is
  not \<^verbatim>\<open>args[0]\<close> is skipped. After a failing \<^verbatim>\<open>Exec\<close> the function returns; after a
  successful one the loop goes on.
\<close>

fun exec_loop :: "Command list \<Rightarrow> MessageEvent \<Rightarrow> string list \<Rightarrow> string \<Rightarrow> effect list" where
  "exec_loop [] ev args name = []"
| "exec_loop (cmd # rest) ev args name =
     (if args ! 0 \<noteq> Name cmd then exec_loop rest ev args name
      else
        (case Exec cmd args of
          (rsp, Some err) \<Rightarrow>
            [ExecCall (Name cmd) args,
             SendMessage (''@'' @ name @ '': error executing command: '' @ err) (ev_Channel ev)]
        | (rsp, None) \<Rightarrow>
            ExecCall (Name cmd) args #
            SendMessage
              (if length name = 0 \<or> HasPrefix (ev_Channel ev) ''D'' then rsp
               else ''@'' @ name @ '': '' @ rsp)
              (ev_Channel ev) #
            exec_loop rest ev args name))"

definition exec :: "registry \<Rightarrow> MessageEvent \<Rightarrow> string list \<Rightarrow> string \<Rightarrow> effect list" where
  "exec cmds ev args name =
     (if length args = 0 then [] else exec_loop (map snd cmds) ev args name)"

section \<open>Classification and argument parsing: \<^verbatim>\<open>process\<close>\<close>

text \<open>Lines 66 to 86: the three early returns, then the switch that lets an event through.\<close>

definition process_accepts :: "MessageEvent \<Rightarrow> AuthTestResponse \<Rightarrow> bool" where
  "process_accepts ev auth =
     (if ev_Type ev \<noteq> ''message'' then False
      else if length (ev_Text ev) = 0 then False
      else if ev_User ev = auth_User auth then False
      else if HasPrefix (ev_Channel ev) ''D'' then True
      else if HasPrefix (ev_Text ev) (auth_User auth) then True
      else if HasPrefix (ev_Text ev) (''<@'' @ auth_UserID auth @ ''>'') then True
      else False)"

text \<open>
  Lines 88 to 98: the switch that sets up \<^verbatim>\<open>args\<close>. \<^verbatim>\<open>Split\<close> never gives an empty
  slice, so the slice expression \<^verbatim>\<open>[1:]\<close> is in range and drops one element.
\<close>

definition process_args :: "MessageEvent \<Rightarrow> AuthTestResponse \<Rightarrow> string list" where
  "process_args ev auth =
     (if HasPrefix (ev_Text ev) (auth_User auth) then drop 1 (Split (ev_Text ev) CHR '' '')
      else if HasPrefix (ev_Text ev) (''<@'' @ auth_UserID auth @ ''>'')
        then drop 1 (Split (ev_Text ev) CHR '' '')
      else Split (ev_Text ev) CHR '' '')"

definition process ::
  "registry \<Rightarrow> MessageEvent \<Rightarrow> AuthTestResponse \<Rightarrow> string \<Rightarrow> effect list" where
  "process cmds ev auth name =
     (if process_accepts ev auth then exec cmds ev (process_args ev auth) name else [])"

section \<open>The run loop: \<^verbatim>\<open>run\<close>\<close>

text \<open>
  The closure \<^verbatim>\<open>fn\<close> (lines 109 to 121), applied to what \<^verbatim>\<open>rtm.Client.GetUsers()\<close>
  returned: a fresh map, returned as it is when the call failed, filled from the user
  list otherwise.
\<close>

definition fn :: "SlackUser list \<times> error option \<Rightarrow> (string \<rightharpoonup> string)" where
  "fn got =
     (case got of
       (users, Some err) \<Rightarrow> Map.empty
     | (users, None) \<Rightarrow> fold (\<lambda>user names. names(user_ID user \<mapsto> user_Name user)) users Map.empty)"

text \<open>Indexing a Go map: the zero value, here the empty string, for a missing key.\<close>

definition index_names :: "(string \<rightharpoonup> string) \<Rightarrow> string \<Rightarrow> string" where
  "index_names names k = (case names k of None \<Rightarrow> [] | Some n \<Rightarrow> n)"

text \<open>
  What wakes the \<^verbatim>\<open>select\<close> of lines 131 to 143: the ticker (together with what the
  \<^verbatim>\<open>GetUsers\<close> call of this refresh returns), the exit channel, or an incoming event,
  which is a message event, an invalid-authentication event or any other event.
\<close>

datatype wakeup =
  Tick "SlackUser list \<times> error option"
| Exit
| IncomingMessage MessageEvent
| IncomingInvalidAuth
| IncomingOther

text \<open>
  One round of the loop \<^verbatim>\<open>for { select { ... } }\<close>, with the registry as it is when the
  round runs: whether the loop goes on, the variable \<^verbatim>\<open>names\<close> afterwards, and the
  effects of the round.
\<close>

definition run_select ::
  "registry \<Rightarrow> AuthTestResponse \<Rightarrow> (string \<rightharpoonup> string) \<Rightarrow> wakeup \<Rightarrow>
     bool \<times> (string \<rightharpoonup> string) \<times> effect list" where
  "run_select cmds auth names w =
     (case w of
       Tick got \<Rightarrow> (True, fn got, [])
     | Exit \<Rightarrow> (False, names, [])
     | IncomingMessage ev \<Rightarrow>
         (True, names, process cmds ev auth (index_names names (ev_User ev)))
     | IncomingInvalidAuth \<Rightarrow> (False, names, [])
     | IncomingOther \<Rightarrow> (True, names, []))"

text \<open>
  The loop \<^verbatim>\<open>for { select { ... } }\<close> over the wakeups it receives, each with the registry
  as it is in that round: whether the loop is still going after the last of them, the
  variable \<^verbatim>\<open>names\<close> then, and everything done so far. A round that returns ends the
  loop, and later wakeups are not looked at.
\<close>

fun run_rounds ::
  "AuthTestResponse \<Rightarrow> (string \<rightharpoonup> string) \<Rightarrow> (registry \<times> wakeup) list \<Rightarrow>
     bool \<times> (string \<rightharpoonup> string) \<times> effect list" where
  "run_rounds auth names [] = (True, names, [])"
| "run_rounds auth names ((cmds, w) # rounds) =
     (case run_select cmds auth names w of
       (going, names', out) \<Rightarrow>
         if going
         then (case run_rounds auth names' rounds of
                (going', names'', out') \<Rightarrow> (going', names'', out @ out'))
         else (False, names', out))"

text \<open>\<^verbatim>\<open>run\<close>: the first \<^verbatim>\<open>names := fn()\<close> of line 124, then the loop.\<close>

definition run ::
  "AuthTestResponse \<Rightarrow> SlackUser list \<times> error option \<Rightarrow> (registry \<times> wakeup) list \<Rightarrow>
     bool \<times> (string \<rightharpoonup> string) \<times> effect list" where
  "run auth got rounds = run_rounds auth (fn got) rounds"

section \<open>Registration: \<^verbatim>\<open>Process\<close> and \<^verbatim>\<open>NewInput\<close>\<close>

text \<open>Lines 215 to 225: the registry afterwards and the error returned.\<close>

definition Process :: "registry \<Rightarrow> Command \<Rightarrow> registry \<times> error option" where
  "Process cmds cmd =
     (if map_of cmds (Name cmd) \<noteq> None
      then (cmds, Some (''Command with name '' @ Name cmd @ '' already exists''))
      else (AList.update (Name cmd) cmd cmds, None))"

text \<open>\<^verbatim>\<open>NewInput\<close> makes the registry empty.\<close>

definition NewInput :: registry where
  "NewInput = []"

text \<open>
  What holds of every registry that \<^verbatim>\<open>NewInput\<close> and \<^verbatim>\<open>Process\<close> can build: the keys are
  distinct, as in any Go map, and every handler is stored under its own name.
\<close>

definition wf_cmds :: "registry \<Rightarrow> bool" where
  "wf_cmds cmds \<longleftrightarrow> distinct (map fst cmds) \<and> map fst cmds = map (\<lambda>kc. Name (snd kc)) cmds"

text \<open>What the loop does for the one handler that matches.\<close>

definition reply :: "Command \<Rightarrow> MessageEvent \<Rightarrow> string list \<Rightarrow> string \<Rightarrow> effect list" where
  "reply c ev args name =
     (case Exec c args of
       (rsp, Some err) \<Rightarrow>
         [ExecCall (Name c) args,
          SendMessage (''@'' @ name @ '': error executing command: '' @ err) (ev_Channel ev)]
     | (rsp, None) \<Rightarrow>
         [ExecCall (Name c) args,
          SendMessage
            (if length name = 0 \<or> HasPrefix (ev_Channel ev) ''D'' then rsp
             else ''@'' @ name @ '': '' @ rsp)
            (ev_Channel ev)])"

section \<open>Handlers used in the examples\<close>

text \<open>A handler named \<^verbatim>\<open>deploy\<close> whose \<^verbatim>\<open>Exec\<close> returns \<^verbatim>\<open>("ok", nil)\<close>.\<close>

definition deploy_ok :: Command where
  "deploy_ok = \<lparr>Name = ''deploy'', Exec = (\<lambda>args. (''ok'', None))\<rparr>"

text \<open>A handler named \<^verbatim>\<open>deploy\<close> whose \<^verbatim>\<open>Exec\<close> returns the error \<^verbatim>\<open>boom\<close>.\<close>

definition deploy_fail :: Command where
  "deploy_fail = \<lparr>Name = ''deploy'', Exec = (\<lambda>args. ([], Some ''boom''))\<rparr>"

text \<open>A handler whose name is the empty string and whose \<^verbatim>\<open>Exec\<close> returns \<^verbatim>\<open>("pong", nil)\<close>.\<close>

definition unnamed_ok :: Command where
  "unnamed_ok = \<lparr>Name = [], Exec = (\<lambda>args. (''pong'', None))\<rparr>"

section \<open>Facts about the library functions\<close>

lemma Split_from_nonempty: "Split_from sep piece s \<noteq> []"
  by (induction s arbitrary: piece) auto

lemma Split_nonempty: "Split s sep \<noteq> []"
  by (simp add: Split_def Split_from_nonempty)

lemma Join_Cons: "ws \<noteq> [] \<Longrightarrow> Join (w # ws) sep = w @ sep # Join ws sep"
  by (cases ws) auto

lemma Join_Split_from: "Join (Split_from sep piece s) sep = rev piece @ s"
proof (induction s arbitrary: piece)
  case Nil
  show ?case by simp
next
  case (Cons x s)
  show ?case
  proof (cases "x = sep")
    case True
    then show ?thesis
      using Cons.IH [of "[]"] by (simp add: Join_Cons Split_from_nonempty)
  next
    case False
    then show ?thesis
      using Cons.IH [of "x # piece"] by simp
  qed
qed

lemma Join_Split: "Join (Split s sep) sep = s"
  by (simp add: Split_def Join_Split_from)

lemma Split_from_pieces:
  "sep \<notin> set piece \<Longrightarrow> \<forall>w \<in> set (Split_from sep piece s). sep \<notin> set w"
proof (induction s arbitrary: piece)
  case Nil
  then show ?case by simp
next
  case (Cons x s)
  show ?case
  proof (cases "x = sep")
    case True
    with Cons.prems Cons.IH [of "[]"] show ?thesis by simp
  next
    case False
    with Cons.prems Cons.IH [of "x # piece"] show ?thesis by simp
  qed
qed

lemma Split_pieces: "w \<in> set (Split s sep) \<Longrightarrow> sep \<notin> set w"
  using Split_from_pieces [of sep "[]" s] by (simp add: Split_def)

lemma length_Split_from: "length (Split_from sep piece s) = Suc (count_list s sep)"
  by (induction s arbitrary: piece) auto

lemma length_Split: "length (Split s sep) = Suc (count_list s sep)"
  by (simp add: Split_def length_Split_from)

section \<open>Facts about the registry\<close>

lemma wf_cmds_NewInput: "wf_cmds NewInput"
  by (simp add: wf_cmds_def NewInput_def)

lemma update_fresh:
  "map_of cmds k = None \<Longrightarrow> AList.update k cmd cmds = cmds @ [(k, cmd)]"
  by (induction cmds) (auto split: if_splits)

lemma wf_cmds_update:
  "wf_cmds cmds \<Longrightarrow> map_of cmds (Name cmd) = None \<Longrightarrow> wf_cmds (AList.update (Name cmd) cmd cmds)"
proof -
  assume wf: "wf_cmds cmds" and fresh: "map_of cmds (Name cmd) = None"
  from fresh have "Name cmd \<notin> fst ` set cmds"
    by (simp add: map_of_eq_None_iff)
  with wf show ?thesis
    by (simp add: wf_cmds_def update_fresh [OF fresh])
qed

lemma wf_cmds_Process: "wf_cmds cmds \<Longrightarrow> wf_cmds (fst (Process cmds cmd))"
  by (simp add: Process_def wf_cmds_update)

lemma wf_cmds_lookup:
  assumes "wf_cmds cmds" and "map_of cmds a = Some c"
  shows "distinct (map Name (map snd cmds))" and "c \<in> set (map snd cmds)" and "Name c = a"
proof -
  have "map Name (map snd cmds) = map (\<lambda>kc. Name (snd kc)) cmds"
    by (simp add: comp_def)
  with assms(1) have keys: "map Name (map snd cmds) = map fst cmds"
    unfolding wf_cmds_def by (elim conjE) (erule ssubst)
  from assms(1) have "distinct (map fst cmds)"
    unfolding wf_cmds_def by (elim conjE)
  with keys show "distinct (map Name (map snd cmds))"
    by (elim ssubst)
  from assms(2) have mem: "(a, c) \<in> set cmds"
    by (rule map_of_SomeD)
  then show "c \<in> set (map snd cmds)"
    by force
  from assms(1) have "\<forall>kc \<in> set cmds. fst kc = Name (snd kc)"
    unfolding wf_cmds_def by (metis (no_types, lifting) map_eq_conv)
  with mem show "Name c = a"
    by force
qed

lemma wf_cmds_absent:
  assumes "wf_cmds cmds" and "map_of cmds a = None"
  shows "\<forall>c \<in> set (map snd cmds). Name c \<noteq> a"
proof -
  have "map Name (map snd cmds) = map (\<lambda>kc. Name (snd kc)) cmds"
    by (simp add: comp_def)
  with assms(1) have "map Name (map snd cmds) = map fst cmds"
    unfolding wf_cmds_def by (elim conjE) (erule ssubst)
  then have "Name ` set (map snd cmds) = fst ` set cmds"
    by (metis set_map)
  moreover from assms(2) have "a \<notin> fst ` set cmds"
    by (simp add: map_of_eq_None_iff)
  ultimately show ?thesis
    by blast
qed

section \<open>Facts about the dispatch loop\<close>

lemma exec_loop_no_match:
  "\<forall>c \<in> set cs. Name c \<noteq> args ! 0 \<Longrightarrow> exec_loop cs ev args name = []"
  by (induction cs) auto

lemma exec_loop_unique:
  "distinct (map Name cs) \<Longrightarrow> c \<in> set cs \<Longrightarrow> Name c = args ! 0 \<Longrightarrow>
     exec_loop cs ev args name = reply c ev args name"
proof (induction cs)
  case Nil
  then show ?case by simp
next
  case (Cons d cs)
  show ?case
  proof (cases "d = c")
    case True
    from Cons.prems(1) have "Name d \<notin> Name ` set cs"
      by simp
    then have "\<forall>c' \<in> set cs. Name c' \<noteq> Name d"
      by (metis imageI)
    with True Cons.prems(3) have "exec_loop cs ev args name = []"
      by (simp add: exec_loop_no_match)
    with True Cons.prems(3) show ?thesis
      by (simp add: reply_def split: prod.splits option.splits)
  next
    case False
    with Cons.prems(2) have mem: "c \<in> set cs"
      by simp
    from Cons.prems(1) have "Name d \<notin> Name ` set cs"
      by simp
    with mem Cons.prems(3) have "Name d \<noteq> args ! 0"
      by (metis imageI)
    with mem Cons show ?thesis
      by simp
  qed
qed

lemma exec_registered:
  assumes "wf_cmds cmds" and "args \<noteq> []" and "map_of cmds (args ! 0) = Some c"
  shows "exec cmds ev args name = reply c ev args name"
proof -
  from wf_cmds_lookup [OF assms(1) assms(3)]
  have "exec_loop (map snd cmds) ev args name = reply c ev args name"
    by (intro exec_loop_unique) auto
  with assms(2) show ?thesis
    by (simp add: exec_def)
qed

section \<open>Facts about the run loop\<close>

lemma map_add_upd_front: "m(k \<mapsto> v) ++ n = m ++ ([k \<mapsto> v] ++ n)"
  by (rule ext) (simp add: map_add_def split: option.splits)

lemma fold_names:
  "fold (\<lambda>user names. names(user_ID user \<mapsto> user_Name user)) users m =
     m ++ map_of (rev (map (\<lambda>user. (user_ID user, user_Name user)) users))"
proof (induction users arbitrary: m)
  case Nil
  show ?case by simp
next
  case (Cons u users)
  let ?put = "\<lambda>user names. names(user_ID user \<mapsto> user_Name user)"
  let ?pairs = "map (\<lambda>user. (user_ID user, user_Name user))"
  have "fold ?put (u # users) m = fold ?put users (m(user_ID u \<mapsto> user_Name u))"
    by (simp only: fold_simps comp_apply)
  also have "\<dots> = m(user_ID u \<mapsto> user_Name u) ++ map_of (rev (?pairs users))"
    by (rule Cons.IH)
  also have "\<dots> = m ++ ([user_ID u \<mapsto> user_Name u] ++ map_of (rev (?pairs users)))"
    by (rule map_add_upd_front)
  also have "[user_ID u \<mapsto> user_Name u] ++ map_of (rev (?pairs users)) =
      map_of (rev (?pairs (u # users)))"
    by (simp add: map_of_append)
  finally show ?case .
qed

lemma fn_success:
  "fn (users, None) = map_of (rev (map (\<lambda>user. (user_ID user, user_Name user)) users))"
  by (simp add: fn_def fold_names)

lemma fn_failure: "fn (users, Some err) = Map.empty"
  by (simp add: fn_def)

lemma run_select_names:
  "fst (snd (run_select cmds auth names w)) = (case w of Tick got \<Rightarrow> fn got | _ \<Rightarrow> names)"
  by (simp add: run_select_def split: wakeup.splits)

lemma run_rounds_no_refresh:
  "\<forall>r \<in> set rounds. \<forall>users. snd r \<noteq> Tick (users, None) \<Longrightarrow>
     fst (snd (run_rounds auth Map.empty rounds)) = Map.empty"
proof (induction rounds)
  case Nil
  show ?case by simp
next
  case (Cons r rounds)
  obtain cmds w where r: "r = (cmds, w)"
    by (cases r)
  from Cons.prems r have w: "\<forall>users. w \<noteq> Tick (users, None)"
    by simp
  have kept: "fst (snd (run_select cmds auth Map.empty w)) = Map.empty"
  proof (cases w)
    case (Tick got)
    with w obtain users err where "got = (users, Some err)"
      by (cases got) (metis not_Some_eq)
    with Tick show ?thesis
      by (simp add: run_select_names fn_failure)
  qed (simp_all add: run_select_names)
  from Cons.prems have rest: "fst (snd (run_rounds auth Map.empty rounds)) = Map.empty"
    by (intro Cons.IH) simp
  obtain going out where sel: "run_select cmds auth Map.empty w = (going, Map.empty, out)"
    using kept by (cases "run_select cmds auth Map.empty w") auto
  obtain going' names' out' where
    run: "run_rounds auth Map.empty rounds = (going', names', out')"
    by (cases "run_rounds auth Map.empty rounds")
  with rest have "names' = Map.empty"
    by simp
  with r sel run show ?case
    by (cases going) simp_all
qed

lemma run_rounds_no_tick:
  "\<forall>r \<in> set rounds. \<forall>got. snd r \<noteq> Tick got \<Longrightarrow>
     fst (snd (run_rounds auth names rounds)) = names"
proof (induction rounds)
  case Nil
  show ?case by simp
next
  case (Cons r rounds)
  obtain cmds w where r: "r = (cmds, w)"
    by (cases r)
  from Cons.prems r have "\<forall>got. w \<noteq> Tick got"
    by simp
  then have "fst (snd (run_select cmds auth names w)) = names"
    by (cases w) (simp_all add: run_select_names)
  then obtain going out where sel: "run_select cmds auth names w = (going, names, out)"
    by (cases "run_select cmds auth names w") auto
  from Cons.prems have rest: "fst (snd (run_rounds auth names rounds)) = names"
    by (intro Cons.IH) simp
  obtain going' names' out' where
    run: "run_rounds auth names rounds = (going', names', out')"
    by (cases "run_rounds auth names rounds")
  with rest have "names' = names"
    by simp
  with r sel run show ?case
    by (cases going) simp_all
qed

lemma run_initial_failure: "run auth (users, Some err) [] = (True, Map.empty, [])"
  by (simp add: run_def fn_failure)

lemma run_rounds_append:
  "run_rounds auth names (rounds @ later) =
     (case run_rounds auth names rounds of
       (going, names', out) \<Rightarrow>
         if going
         then (case run_rounds auth names' later of
                (going', names'', out') \<Rightarrow> (going', names'', out @ out'))
         else (False, names', out))"
proof (induction rounds arbitrary: names)
  case Nil
  show ?case by (simp split: prod.splits)
next
  case (Cons r rounds)
  obtain cmds w where r: "r = (cmds, w)"
    by (cases r)
  show ?case
    unfolding r by (simp add: Cons.IH split: prod.splits)
qed

section \<open>Facts shared by the claims\<close>

lemma exec_registered_error:
  assumes "wf_cmds cmds" and "args \<noteq> []" and "map_of cmds (args ! 0) = Some c"
    and "Exec c args = (rsp, Some e)"
  shows "exec cmds ev args name =
    [ExecCall (Name c) args,
     SendMessage (''@'' @ name @ '': error executing command: '' @ e) (ev_Channel ev)]"
  using exec_registered [OF assms(1-3)] assms(4) by (simp add: reply_def)

lemma exec_registered_success:
  assumes "wf_cmds cmds" and "args \<noteq> []" and "map_of cmds (args ! 0) = Some c"
    and "Exec c args = (rsp, None)"
  shows "exec cmds ev args name =
    [ExecCall (Name c) args,
     SendMessage
       (if length name = 0 \<or> HasPrefix (ev_Channel ev) ''D'' then rsp
        else ''@'' @ name @ '': '' @ rsp)
       (ev_Channel ev)]"
  using exec_registered [OF assms(1-3)] assms(4) by (simp add: reply_def)

lemma wf_cmds_deploy_ok: "wf_cmds [(''deploy'', deploy_ok)]"
  by (simp add: wf_cmds_def deploy_ok_def)

lemma wf_cmds_deploy_fail: "wf_cmds [(''deploy'', deploy_fail)]"
  by (simp add: wf_cmds_def deploy_fail_def)

lemma Split_deploy_staging:
  "Split ''@bot deploy staging'' CHR '' '' = [''@bot'', ''deploy'', ''staging'']"
  by (simp add: Split_def)

lemma process_accepted:
  "process_accepts ev auth \<Longrightarrow>
     process cmds ev auth name = exec cmds ev (process_args ev auth) name"
  by (simp add: process_def)

lemma process_self_by_handle:
  "ev_User ev = auth_User auth \<Longrightarrow> process cmds ev auth name = []"
  by (simp add: process_def process_accepts_def)

section \<open>The identity cache\<close>

text \<open>
  Claim C1, as amended. When the periodic refresh of the user list fails, \<^verbatim>\<open>fn\<close> returns
  the fresh map it has just made, and the run loop assigns it to \<^verbatim>\<open>names\<close>: after the
  refresh the mapping is empty whatever it held before, nothing is sent and the loop
  goes on. Through all later rounds in which no refresh succeeds the mapping stays
  empty, so every sender's name reads as the empty string and a message is dispatched
  with the empty name. A later refresh that succeeds, if the loop is still going, sets
  the mapping to the one built from the user list, the last entry of an identifier
  winning. Rounds that are not a refresh leave the mapping as it is.
\<close>

theorem refresh_failure_discards_names:
  assumes "\<forall>r \<in> set rounds. \<forall>us. snd r \<noteq> Tick (us, None)"
  shows "run_select cmds auth names (Tick (users, Some err)) = (True, Map.empty, []) \<and>
    fst (snd (run_rounds auth names ((cmds, Tick (users, Some err)) # rounds))) = Map.empty \<and>
    index_names
      (fst (snd (run_rounds auth names ((cmds, Tick (users, Some err)) # rounds)))) uid = [] \<and>
    run_select cmds' auth Map.empty (IncomingMessage ev) =
      (True, Map.empty, process cmds' ev auth []) \<and>
    (fst (run_rounds auth names ((cmds, Tick (users, Some err)) # rounds)) \<longrightarrow>
      run_rounds auth names
        ((cmds, Tick (users, Some err)) # rounds @ [(cmds', Tick (users', None))]) =
      (True, map_of (rev (map (\<lambda>user. (user_ID user, user_Name user)) users')),
       snd (snd (run_rounds auth names ((cmds, Tick (users, Some err)) # rounds))))) \<and>
    ((\<forall>r \<in> set quiet. \<forall>got. snd r \<noteq> Tick got) \<longrightarrow>
      fst (snd (run_rounds auth names' quiet)) = names')"
proof -
  let ?failed = "(cmds, Tick (users, Some err))"
  have one: "run_select cmds auth names (Tick (users, Some err)) = (True, Map.empty, [])"
    by (simp add: run_select_def fn_failure)
  have first: "run_rounds auth names (?failed # rounds) = run_rounds auth Map.empty rounds"
    by (simp add: one split: prod.splits)
  have empty: "fst (snd (run_rounds auth names (?failed # rounds))) = Map.empty"
    unfolding first using assms by (rule run_rounds_no_refresh)
  have unnamed: "run_select cmds' auth Map.empty (IncomingMessage ev) =
      (True, Map.empty, process cmds' ev auth [])"
    by (simp add: run_select_def index_names_def)
  have later: "run_rounds auth names (?failed # rounds @ [(cmds', Tick (users', None))]) =
      (True, map_of (rev (map (\<lambda>user. (user_ID user, user_Name user)) users')),
       snd (snd (run_rounds auth names (?failed # rounds))))"
    if "fst (run_rounds auth names (?failed # rounds))"
  proof -
    obtain going n out where
      res: "run_rounds auth names (?failed # rounds) = (going, n, out)"
      by (cases "run_rounds auth names (?failed # rounds)")
    with that empty have going and "n = Map.empty"
      by simp_all
    have last: "run_rounds auth n [(cmds', Tick (users', None))] =
        (True, map_of (rev (map (\<lambda>user. (user_ID user, user_Name user)) users')), [])"
      by (simp add: run_select_def fn_success)
    have "run_rounds auth names ((?failed # rounds) @ [(cmds', Tick (users', None))]) =
      (True, map_of (rev (map (\<lambda>user. (user_ID user, user_Name user)) users')),
       snd (snd (run_rounds auth names (?failed # rounds))))"
      unfolding run_rounds_append res using \<open>going\<close>
      by (simp add: last del: run_rounds.simps)
    then show ?thesis
      by simp
  qed
  have still: "fst (snd (run_rounds auth names' quiet)) = names'"
    if "\<forall>r \<in> set quiet. \<forall>got. snd r \<noteq> Tick got"
    using that by (rule run_rounds_no_tick)
  have unknown: "index_names
      (fst (snd (run_rounds auth names (?failed # rounds)))) uid = []"
    unfolding empty by (simp add: index_names_def)
  from one empty unknown unnamed later still show ?thesis
    by blast
qed

theorem refresh_failure_discards_names_witness:
  "run_rounds \<lparr>auth_User = ''bot'', auth_UserID = ''UBOT''\<rparr> [''U123'' \<mapsto> ''alice'']
     [([(''deploy'', deploy_ok)], Tick ([], Some ''timeout'')),
      ([(''deploy'', deploy_ok)], IncomingOther),
      ([(''deploy'', deploy_ok)],
       IncomingMessage \<lparr>ev_Type = ''message'', ev_Text = ''bot deploy'', ev_User = ''U123'',
         ev_Channel = ''C999''\<rparr>),
      ([(''deploy'', deploy_ok)], Tick ([], Some ''timeout'')),
      ([(''deploy'', deploy_ok)],
       Tick ([\<lparr>user_ID = ''U123'', user_Name = ''alice''\<rparr>], None))] =
   (True, [''U123'' \<mapsto> ''alice''],
    [ExecCall ''deploy'' [''deploy''], SendMessage ''ok'' ''C999'']) \<and>
   fst (snd (run_rounds \<lparr>auth_User = ''bot'', auth_UserID = ''UBOT''\<rparr>
     [''U123'' \<mapsto> ''alice'']
     [([(''deploy'', deploy_ok)], IncomingOther),
      ([(''deploy'', deploy_ok)],
       IncomingMessage \<lparr>ev_Type = ''message'', ev_Text = ''bot deploy'', ev_User = ''U123'',
         ev_Channel = ''C999''\<rparr>)])) = [''U123'' \<mapsto> ''alice'']"
proof -
  let ?auth = "\<lparr>auth_User = ''bot'', auth_UserID = ''UBOT''\<rparr>"
  let ?cmds = "[(''deploy'', deploy_ok)]"
  let ?ev = "\<lparr>ev_Type = ''message'', ev_Text = ''bot deploy'', ev_User = ''U123'',
         ev_Channel = ''C999''\<rparr>"
  let ?rounds = "[(?cmds, IncomingOther), (?cmds, IncomingMessage ?ev),
      (?cmds, Tick ([], Some ''timeout''))]"
  have quiet: "\<forall>r \<in> set ?rounds. \<forall>us. snd r \<noteq> Tick (us, None)"
    by simp
  have sent: "process ?cmds ?ev ?auth [] =
      [ExecCall ''deploy'' [''deploy''], SendMessage ''ok'' ''C999'']"
    by (simp add: process_def process_accepts_def process_args_def HasPrefix_def Split_def
        exec_def deploy_ok_def)
  have before: "run_rounds ?auth [''U123'' \<mapsto> ''alice'']
      ((?cmds, Tick ([], Some ''timeout'')) # ?rounds) =
      (True, Map.empty, [ExecCall ''deploy'' [''deploy''], SendMessage ''ok'' ''C999''])"
    by (simp add: run_select_def fn_failure index_names_def sent)
  have going: "fst (run_rounds ?auth [''U123'' \<mapsto> ''alice'']
      ((?cmds, Tick ([], Some ''timeout'')) # ?rounds))"
    by (simp only: before fst_conv)
  let ?quiet = "[(?cmds, IncomingOther), (?cmds, IncomingMessage ?ev)]"
  have no_tick: "\<forall>r \<in> set ?quiet. \<forall>got. snd r \<noteq> Tick got"
    by simp
  note refresh_failure_discards_names [OF quiet, where cmds = ?cmds and auth = ?auth
      and names = "[''U123'' \<mapsto> ''alice'']" and users = "[]" and err = "''timeout''"
      and cmds' = ?cmds and users' = "[\<lparr>user_ID = ''U123'', user_Name = ''alice''\<rparr>]"
      and quiet = ?quiet and names' = "[''U123'' \<mapsto> ''alice'']"]
  note rest = this [THEN conjunct2, THEN conjunct2, THEN conjunct2, THEN conjunct2]
  from rest [THEN conjunct1, THEN mp, OF going]
  have recovered: "run_rounds ?auth [''U123'' \<mapsto> ''alice'']
      ((?cmds, Tick ([], Some ''timeout'')) # ?rounds @
        [(?cmds, Tick ([\<lparr>user_ID = ''U123'', user_Name = ''alice''\<rparr>], None))]) =
     (True, [''U123'' \<mapsto> ''alice''],
      [ExecCall ''deploy'' [''deploy''], SendMessage ''ok'' ''C999''])"
    by (simp add: before del: run_rounds.simps)
  from rest [THEN conjunct2, THEN mp, OF no_tick]
  have kept: "fst (snd (run_rounds ?auth [''U123'' \<mapsto> ''alice''] ?quiet)) =
      [''U123'' \<mapsto> ''alice'']" .
  from recovered kept show ?thesis
    by (simp del: run_rounds.simps)
qed

text \<open>
  The mapping \<open>U123 \<mapsto> alice\<close> is not kept by a failed refresh: afterwards it differs
  from what it was, and the name of \<open>U123\<close> reads as the empty string.
\<close>

theorem refresh_failure_counterexample:
  "index_names [''U123'' \<mapsto> ''alice''] ''U123'' = ''alice'' \<and>
   fst (snd (run_select [] \<lparr>auth_User = ''bot'', auth_UserID = ''UBOT''\<rparr>
     [''U123'' \<mapsto> ''alice''] (Tick ([], Some ''timeout'')))) \<noteq> [''U123'' \<mapsto> ''alice''] \<and>
   index_names (fst (snd (run_select [] \<lparr>auth_User = ''bot'', auth_UserID = ''UBOT''\<rparr>
     [''U123'' \<mapsto> ''alice''] (Tick ([], Some ''timeout''))))) ''U123'' = []"
proof -
  have after: "fst (snd (run_select [] \<lparr>auth_User = ''bot'', auth_UserID = ''UBOT''\<rparr>
      [''U123'' \<mapsto> ''alice''] (Tick ([], Some ''timeout'')))) = Map.empty"
    by (simp add: run_select_def fn_def)
  have "Map.empty ''U123'' \<noteq> [''U123'' \<mapsto> ''alice''] ''U123''"
    by simp
  then have "Map.empty \<noteq> [''U123'' \<mapsto> ''alice'']"
    by (metis (no_types))
  with after show ?thesis
    by (simp add: index_names_def)
qed

section \<open>Classification and argument parsing\<close>

text \<open>
  Claim C2, as amended. The message \<^verbatim>\<open>@bot deploy staging\<close> from \<open>U123\<close>, cached as
  \<open>alice\<close>, in channel \<open>C999\<close>, with a handler registered under \<^verbatim>\<open>deploy\<close> that
  returns \<^verbatim>\<open>("ok", nil)\<close> for the arguments \<^verbatim>\<open>deploy staging\<close>: when the adapter's handle
  (the field \<^verbatim>\<open>User\<close> of the authentication response) is a prefix of the text, as
  \<^verbatim>\<open>@bot\<close> is, the round of the run loop calls that handler once and sends exactly
  \<^verbatim>\<open>@alice: ok\<close> to \<open>C999\<close>.
\<close>

theorem deploy_example:
  assumes "wf_cmds cmds" and "map_of cmds ''deploy'' = Some c"
    and "Exec c [''deploy'', ''staging''] = (''ok'', None)"
    and "names ''U123'' = Some ''alice''"
    and "HasPrefix ''@bot deploy staging'' (auth_User auth)"
  shows "run_select cmds auth names
      (IncomingMessage \<lparr>ev_Type = ''message'', ev_Text = ''@bot deploy staging'',
        ev_User = ''U123'', ev_Channel = ''C999''\<rparr>) =
    (True, names,
     [ExecCall ''deploy'' [''deploy'', ''staging''], SendMessage ''@alice: ok'' ''C999''])"
proof -
  let ?ev = "\<lparr>ev_Type = ''message'', ev_Text = ''@bot deploy staging'',
    ev_User = ''U123'', ev_Channel = ''C999''\<rparr>"
  let ?args = "[''deploy'', ''staging'']"
  from assms(5) have other: "auth_User auth \<noteq> ''U123''"
    by (auto simp: HasPrefix_def)
  with assms(5) have acc: "process_accepts ?ev auth"
    by (simp add: process_accepts_def)
  from assms(5) have parsed: "process_args ?ev auth = ?args"
    by (simp add: process_args_def Split_deploy_staging)
  have name: "index_names names (ev_User ?ev) = ''alice''"
    using assms(4) by (simp add: index_names_def)
  have "?args \<noteq> []" and "map_of cmds (?args ! 0) = Some c"
    using assms(2) by simp_all
  from exec_registered_success [OF assms(1) this assms(3), of ?ev "''alice''"]
    wf_cmds_lookup(3) [OF assms(1) assms(2)]
  have "exec cmds ?ev ?args ''alice'' =
      [ExecCall ''deploy'' ?args, SendMessage ''@alice: ok'' ''C999'']"
    by (simp add: HasPrefix_def)
  with acc parsed name show ?thesis
    by (simp add: run_select_def process_def)
qed

theorem deploy_example_witness:
  "wf_cmds [(''deploy'', deploy_ok)] \<and>
   HasPrefix ''@bot deploy staging'' ''@bot'' \<and>
   run_select [(''deploy'', deploy_ok)] \<lparr>auth_User = ''@bot'', auth_UserID = ''UBOT''\<rparr>
      [''U123'' \<mapsto> ''alice'']
      (IncomingMessage \<lparr>ev_Type = ''message'', ev_Text = ''@bot deploy staging'',
        ev_User = ''U123'', ev_Channel = ''C999''\<rparr>) =
    (True, [''U123'' \<mapsto> ''alice''],
     [ExecCall ''deploy'' [''deploy'', ''staging''], SendMessage ''@alice: ok'' ''C999''])"
proof -
  have found: "map_of [(''deploy'', deploy_ok)] ''deploy'' = Some deploy_ok"
    by simp
  have ran: "Exec deploy_ok [''deploy'', ''staging''] = (''ok'', None)"
    by (simp add: deploy_ok_def)
  have cached: "[''U123'' \<mapsto> ''alice''] ''U123'' = Some ''alice''"
    by simp
  have handle: "HasPrefix ''@bot deploy staging''
      (auth_User \<lparr>auth_User = ''@bot'', auth_UserID = ''UBOT''\<rparr>)"
    by (simp add: HasPrefix_def)
  from deploy_example [where names = "[''U123'' \<mapsto> ''alice'']"
      and auth = "\<lparr>auth_User = ''@bot'', auth_UserID = ''UBOT''\<rparr>",
      OF wf_cmds_deploy_ok found ran cached handle]
    wf_cmds_deploy_ok handle
  show ?thesis
    by simp
qed

text \<open>
  With the handle \<^verbatim>\<open>bot\<close>, which is not a prefix of \<^verbatim>\<open>@bot deploy staging\<close>, the same
  event in the same channel is not let through and nothing is sent.
\<close>

theorem deploy_example_counterexample:
  "run_select [(''deploy'', deploy_ok)] \<lparr>auth_User = ''bot'', auth_UserID = ''UBOT''\<rparr>
      [''U123'' \<mapsto> ''alice'']
      (IncomingMessage \<lparr>ev_Type = ''message'', ev_Text = ''@bot deploy staging'',
        ev_User = ''U123'', ev_Channel = ''C999''\<rparr>) =
    (True, [''U123'' \<mapsto> ''alice''], [])"
  by (simp add: run_select_def process_def process_accepts_def HasPrefix_def)

text \<open>
  Claim C3, as amended. An accepted event of a direct channel is parsed like any other:
  the arguments are the pieces of the full text between single space characters (joined
  by spaces they give the text back, and there is one piece more than there are spaces),
  and the leading piece is dropped exactly when the text begins with the adapter's
  handle or with its structured mention.
\<close>

theorem direct_channel_args:
  assumes "process_accepts ev auth" and "HasPrefix (ev_Channel ev) ''D''"
  shows "process cmds ev auth name = exec cmds ev (process_args ev auth) name \<and>
    process_args ev auth =
      (if HasPrefix (ev_Text ev) (auth_User auth) \<or>
          HasPrefix (ev_Text ev) (''<@'' @ auth_UserID auth @ ''>'')
       then drop 1 (Split (ev_Text ev) CHR '' '')
       else Split (ev_Text ev) CHR '' '') \<and>
    Join (Split (ev_Text ev) CHR '' '') CHR '' '' = ev_Text ev \<and>
    length (Split (ev_Text ev) CHR '' '') = Suc (count_list (ev_Text ev) CHR '' '')"
  using assms(1) by (simp add: process_def process_args_def Join_Split length_Split)

theorem direct_channel_args_witness:
  "process_accepts
     \<lparr>ev_Type = ''message'', ev_Text = ''deploy staging'', ev_User = ''U123'',
      ev_Channel = ''D001''\<rparr>
     \<lparr>auth_User = ''bot'', auth_UserID = ''UBOT''\<rparr> \<and>
   HasPrefix ''D001'' ''D'' \<and>
   process_args
     \<lparr>ev_Type = ''message'', ev_Text = ''deploy staging'', ev_User = ''U123'',
      ev_Channel = ''D001''\<rparr>
     \<lparr>auth_User = ''bot'', auth_UserID = ''UBOT''\<rparr> = [''deploy'', ''staging'']"
proof -
  let ?ev = "\<lparr>ev_Type = ''message'', ev_Text = ''deploy staging'', ev_User = ''U123'',
      ev_Channel = ''D001''\<rparr>"
  let ?auth = "\<lparr>auth_User = ''bot'', auth_UserID = ''UBOT''\<rparr>"
  have acc: "process_accepts ?ev ?auth"
    by (simp add: process_accepts_def HasPrefix_def)
  have direct: "HasPrefix (ev_Channel ?ev) ''D''"
    by (simp add: HasPrefix_def)
  have split: "Split ''deploy staging'' CHR '' '' = [''deploy'', ''staging'']"
    by (simp add: Split_def)
  have plain: "\<not> HasPrefix ''deploy staging'' ''bot''"
    "\<not> HasPrefix ''deploy staging'' ''<@UBOT>''"
    by (simp_all add: HasPrefix_def)
  from direct_channel_args [OF acc direct] acc direct split plain show ?thesis
    by simp
qed

text \<open>
  In the direct channel \<open>D001\<close> the text \<^verbatim>\<open>bot deploy\<close>, which begins with the handle
  \<^verbatim>\<open>bot\<close>, loses its leading token.
\<close>

theorem direct_channel_args_counterexample:
  "process_accepts
     \<lparr>ev_Type = ''message'', ev_Text = ''bot deploy'', ev_User = ''U123'',
      ev_Channel = ''D001''\<rparr>
     \<lparr>auth_User = ''bot'', auth_UserID = ''UBOT''\<rparr> \<and>
   HasPrefix ''D001'' ''D'' \<and>
   Split ''bot deploy'' CHR '' '' = [''bot'', ''deploy''] \<and>
   process_args
     \<lparr>ev_Type = ''message'', ev_Text = ''bot deploy'', ev_User = ''U123'',
      ev_Channel = ''D001''\<rparr>
     \<lparr>auth_User = ''bot'', auth_UserID = ''UBOT''\<rparr> = [''deploy''] \<and>
   process_args
     \<lparr>ev_Type = ''message'', ev_Text = ''bot deploy'', ev_User = ''U123'',
      ev_Channel = ''D001''\<rparr>
     \<lparr>auth_User = ''bot'', auth_UserID = ''UBOT''\<rparr> \<noteq> Split ''bot deploy'' CHR '' ''"
  by (simp add: process_accepts_def process_args_def HasPrefix_def Split_def)

text \<open>
  Claim C4 says that an event whose sender is the adapter's own user identifier is
  rejected. The test under the comment \<^verbatim>\<open>don't process self\<close> compares the sender's
  identifier with the adapter's handle (\<^verbatim>\<open>auth.User\<close>), not with its identifier
  (\<^verbatim>\<open>auth.UserID\<close>): a direct message whose sender is \<open>UBOT\<close>, the adapter's own
  identifier, is parsed, the handler is called and a reply is sent.
\<close>

theorem self_by_user_id_dispatched:
  "ev_User \<lparr>ev_Type = ''message'', ev_Text = ''deploy staging'', ev_User = ''UBOT'',
      ev_Channel = ''D001''\<rparr> =
     auth_UserID \<lparr>auth_User = ''bot'', auth_UserID = ''UBOT''\<rparr> \<and>
   process [(''deploy'', deploy_ok)]
     \<lparr>ev_Type = ''message'', ev_Text = ''deploy staging'', ev_User = ''UBOT'',
      ev_Channel = ''D001''\<rparr>
     \<lparr>auth_User = ''bot'', auth_UserID = ''UBOT''\<rparr> ''bot'' =
   [ExecCall ''deploy'' [''deploy'', ''staging''], SendMessage ''ok'' ''D001'']"
  by (simp add: process_def process_accepts_def process_args_def HasPrefix_def Split_def
      exec_def deploy_ok_def)

section \<open>Dispatch\<close>

text \<open>
  Claim C5. When the handler registered under the first argument returns \<open>rsp\<close> and no
  error, it is called once and one reply goes to the channel of the event: \<open>rsp\<close> after
  the prefix made of \<^verbatim>\<open>@\<close>, the sender's name and \<^verbatim>\<open>: \<close> when the name is not empty and
  the channel is not a direct one, and \<open>rsp\<close> alone otherwise.
\<close>

theorem exec_success_reply:
  assumes "wf_cmds cmds" and "args \<noteq> []" and "map_of cmds (args ! 0) = Some c"
    and "Exec c args = (rsp, None)"
  shows "exec cmds ev args name =
    [ExecCall (Name c) args,
     SendMessage
       (if name \<noteq> [] \<and> \<not> HasPrefix (ev_Channel ev) ''D'' then ''@'' @ name @ '': '' @ rsp
        else rsp)
       (ev_Channel ev)]"
  using exec_registered_success [OF assms] by simp

theorem exec_success_reply_witness:
  "wf_cmds [(''deploy'', deploy_ok)] \<and>
   exec [(''deploy'', deploy_ok)]
     \<lparr>ev_Type = ''message'', ev_Text = ''@bot deploy staging'', ev_User = ''U123'',
      ev_Channel = ''C999''\<rparr>
     [''deploy'', ''staging''] ''alice'' =
   [ExecCall ''deploy'' [''deploy'', ''staging''], SendMessage ''@alice: ok'' ''C999''] \<and>
   exec [(''deploy'', deploy_ok)]
     \<lparr>ev_Type = ''message'', ev_Text = ''deploy staging'', ev_User = ''U123'',
      ev_Channel = ''D001''\<rparr>
     [''deploy'', ''staging''] ''alice'' =
   [ExecCall ''deploy'' [''deploy'', ''staging''], SendMessage ''ok'' ''D001'']"
proof -
  have args: "[''deploy'', ''staging''] \<noteq> []"
    by simp
  have found: "map_of [(''deploy'', deploy_ok)] ([''deploy'', ''staging''] ! 0) = Some deploy_ok"
    by simp
  have ran: "Exec deploy_ok [''deploy'', ''staging''] = (''ok'', None)"
    by (simp add: deploy_ok_def)
  have name: "Name deploy_ok = ''deploy''"
    by (simp add: deploy_ok_def)
  show ?thesis
    using exec_success_reply [OF wf_cmds_deploy_ok args found ran] wf_cmds_deploy_ok name
    by (simp add: HasPrefix_def)
qed

text \<open>
  Claim C6. When the handler registered under the first argument returns the error \<open>e\<close>,
  it is called once and exactly one reply goes to the channel of the event: \<^verbatim>\<open>@\<close>, the
  sender's name, \<^verbatim>\<open>: error executing command: \<close> and \<open>e\<close>; the reply contains the literal
  \<^verbatim>\<open>error executing command:\<close>.
\<close>

theorem exec_error_reply:
  assumes "wf_cmds cmds" and "args \<noteq> []" and "map_of cmds (args ! 0) = Some c"
    and "Exec c args = (rsp, Some e)"
  shows "\<exists>text pre post.
    exec cmds ev args name = [ExecCall (Name c) args, SendMessage text (ev_Channel ev)] \<and>
    text = ''@'' @ name @ '': error executing command: '' @ e \<and>
    text = pre @ ''error executing command:'' @ post"
proof -
  have "''@'' @ name @ '': error executing command: '' @ e =
      (''@'' @ name @ '': '') @ ''error executing command:'' @ ('' '' @ e)"
    by simp
  with exec_registered_error [OF assms] show ?thesis
    by blast
qed

theorem exec_error_reply_witness:
  "wf_cmds [(''deploy'', deploy_fail)] \<and>
   (\<exists>text pre post.
     exec [(''deploy'', deploy_fail)]
       \<lparr>ev_Type = ''message'', ev_Text = ''@bot deploy'', ev_User = ''U123'',
        ev_Channel = ''C999''\<rparr>
       [''deploy''] ''alice'' =
     [ExecCall ''deploy'' [''deploy''], SendMessage text ''C999''] \<and>
     text = ''@alice: error executing command: boom'' \<and>
     text = pre @ ''error executing command:'' @ post)"
proof -
  have args: "[''deploy''] \<noteq> []"
    by simp
  have found: "map_of [(''deploy'', deploy_fail)] ([''deploy''] ! 0) = Some deploy_fail"
    by simp
  have ran: "Exec deploy_fail [''deploy''] = ([], Some ''boom'')"
    by (simp add: deploy_fail_def)
  have name: "Name deploy_fail = ''deploy''"
    by (simp add: deploy_fail_def)
  show ?thesis
    using exec_error_reply [OF wf_cmds_deploy_fail args found ran,
        of "\<lparr>ev_Type = ''message'', ev_Text = ''@bot deploy'', ev_User = ''U123'',
          ev_Channel = ''C999''\<rparr>" "''alice''"]
      wf_cmds_deploy_fail name
    by simp
qed

text \<open>
  Claim C8. When no registered handler has the first argument as its name, the dispatch
  calls no handler and sends nothing; \<^verbatim>\<open>exec\<close> has no result through which an error
  could come back.
\<close>

theorem exec_unregistered_silent:
  assumes "\<forall>kc \<in> set cmds. Name (snd kc) \<noteq> a"
  shows "exec cmds ev (a # rest) name = []"
proof -
  from assms have "\<forall>c \<in> set (map snd cmds). Name c \<noteq> (a # rest) ! 0"
    by simp
  then have "exec_loop (map snd cmds) ev (a # rest) name = []"
    by (rule exec_loop_no_match)
  then show ?thesis
    by (simp add: exec_def)
qed

theorem exec_unregistered_silent_witness:
  "(\<exists>kc. kc \<in> set [(''deploy'', deploy_ok)]) \<and>
   exec [(''deploy'', deploy_ok)]
     \<lparr>ev_Type = ''message'', ev_Text = ''@bot restart now'', ev_User = ''U123'',
      ev_Channel = ''C999''\<rparr>
     (''restart'' # [''now'']) ''alice'' = []"
proof -
  have "\<forall>kc \<in> set [(''deploy'', deploy_ok)]. Name (snd kc) \<noteq> ''restart''"
    by (simp add: deploy_ok_def)
  from exec_unregistered_silent [OF this] show ?thesis
    by simp
qed

text \<open>
  Claim C9, as amended. When the first argument is the empty string, the dispatch calls
  no handler and sends nothing exactly when no handler is registered under the empty
  name; a handler registered under the empty name is called with the arguments and one
  reply is sent, as for any other name.
\<close>

theorem exec_empty_first_token:
  assumes "wf_cmds cmds"
  shows "(exec cmds ev ([] # rest) name = []) = (map_of cmds [] = None) \<and>
    (\<forall>c. map_of cmds [] = Some c \<longrightarrow>
      (\<exists>text. exec cmds ev ([] # rest) name =
        [ExecCall [] ([] # rest), SendMessage text (ev_Channel ev)]))"
proof -
  have absent: "exec cmds ev ([] # rest) name = []" if "map_of cmds [] = None"
  proof -
    from wf_cmds_absent [OF assms that]
    have "\<forall>c \<in> set (map snd cmds). Name c \<noteq> ([] # rest) ! 0"
      by simp
    then have "exec_loop (map snd cmds) ev ([] # rest) name = []"
      by (rule exec_loop_no_match)
    then show ?thesis
      by (simp add: exec_def)
  qed
  have present: "\<exists>text. exec cmds ev ([] # rest) name =
      [ExecCall [] ([] # rest), SendMessage text (ev_Channel ev)]"
    if "map_of cmds [] = Some c" for c
  proof -
    have "[] # rest \<noteq> []" and "map_of cmds (([] # rest) ! 0) = Some c"
      using that by simp_all
    from exec_registered [OF assms this, of ev name] wf_cmds_lookup(3) [OF assms that]
    show ?thesis
      by (auto simp: reply_def split: prod.splits option.splits)
  qed
  from absent present show ?thesis
    by (cases "map_of cmds []") fastforce+
qed

theorem exec_empty_first_token_witness:
  "wf_cmds [(''deploy'', deploy_ok)] \<and>
   map_of [(''deploy'', deploy_ok)] [] = None \<and>
   exec [(''deploy'', deploy_ok)]
     \<lparr>ev_Type = ''message'', ev_Text = ''bot  x'', ev_User = ''U123'', ev_Channel = ''C999''\<rparr>
     ([] # [''x'']) ''alice'' = []"
proof -
  have none: "map_of [(''deploy'', deploy_ok)] [] = None"
    by simp
  from exec_empty_first_token [OF wf_cmds_deploy_ok] none wf_cmds_deploy_ok show ?thesis
    by simp
qed

text \<open>
  \<^verbatim>\<open>Process\<close> accepts a handler whose name is empty. The accepted text \<^verbatim>\<open>bot  x\<close>, with
  two spaces after the handle, is parsed into an empty first argument and \<^verbatim>\<open>x\<close>; that
  handler is called and its reply is sent.
\<close>

theorem exec_empty_first_token_counterexample:
  "process_accepts
     \<lparr>ev_Type = ''message'', ev_Text = ''bot  x'', ev_User = ''U123'', ev_Channel = ''C999''\<rparr>
     \<lparr>auth_User = ''bot'', auth_UserID = ''UBOT''\<rparr> \<and>
   process_args
     \<lparr>ev_Type = ''message'', ev_Text = ''bot  x'', ev_User = ''U123'', ev_Channel = ''C999''\<rparr>
     \<lparr>auth_User = ''bot'', auth_UserID = ''UBOT''\<rparr> = ['''', ''x''] \<and>
   Process NewInput unnamed_ok = ([('''', unnamed_ok)], None) \<and>
   process [('''', unnamed_ok)]
     \<lparr>ev_Type = ''message'', ev_Text = ''bot  x'', ev_User = ''U123'', ev_Channel = ''C999''\<rparr>
     \<lparr>auth_User = ''bot'', auth_UserID = ''UBOT''\<rparr> ''alice'' =
   [ExecCall '''' ['''', ''x''], SendMessage ''@alice: pong'' ''C999'']"
  by (simp add: process_def process_accepts_def process_args_def HasPrefix_def Split_def
      exec_def unnamed_ok_def Process_def NewInput_def)

text \<open>
  Claim C10. When the handler registered under the first argument returns an error, the
  reply begins with \<^verbatim>\<open>@\<close>, the sender's name and \<^verbatim>\<open>: \<close> whatever the name and the
  channel are, so with an empty name it begins with \<^verbatim>\<open>@: \<close>; when the handler succeeds
  and the name is empty or the channel is a direct one, the reply is the output alone.
\<close>

theorem exec_error_keeps_prefix:
  assumes "wf_cmds cmds" and "args \<noteq> []" and "map_of cmds (args ! 0) = Some c"
    and "Exec c args = (rsp, r)"
  shows "(\<forall>e. r = Some e \<longrightarrow>
      exec cmds ev args name =
        [ExecCall (Name c) args,
         SendMessage (''@'' @ name @ '': error executing command: '' @ e) (ev_Channel ev)]) \<and>
    (\<forall>e. r = Some e \<and> name = [] \<longrightarrow>
      exec cmds ev args name =
        [ExecCall (Name c) args,
         SendMessage (''@: error executing command: '' @ e) (ev_Channel ev)]) \<and>
    (r = None \<and> (name = [] \<or> HasPrefix (ev_Channel ev) ''D'') \<longrightarrow>
      exec cmds ev args name = [ExecCall (Name c) args, SendMessage rsp (ev_Channel ev)])"
proof (cases r)
  case None
  with exec_registered_success [OF assms(1-3), of rsp ev name] assms(4) show ?thesis
    by auto
next
  case (Some e)
  with exec_registered_error [OF assms(1-3), of rsp e ev name] assms(4) show ?thesis
    by auto
qed

theorem exec_error_keeps_prefix_witness:
  "wf_cmds [(''deploy'', deploy_fail)] \<and>
   HasPrefix ''D001'' ''D'' \<and>
   exec [(''deploy'', deploy_fail)]
     \<lparr>ev_Type = ''message'', ev_Text = ''deploy'', ev_User = ''U123'', ev_Channel = ''D001''\<rparr>
     [''deploy''] [] =
   [ExecCall ''deploy'' [''deploy''], SendMessage ''@: error executing command: boom'' ''D001'']"
proof -
  have args: "[''deploy''] \<noteq> []"
    by simp
  have found: "map_of [(''deploy'', deploy_fail)] ([''deploy''] ! 0) = Some deploy_fail"
    by simp
  have ran: "Exec deploy_fail [''deploy''] = ([], Some ''boom'')"
    by (simp add: deploy_fail_def)
  have name: "Name deploy_fail = ''deploy''"
    by (simp add: deploy_fail_def)
  have direct: "HasPrefix ''D001'' ''D''"
    by (simp add: HasPrefix_def)
  from exec_error_keeps_prefix [OF wf_cmds_deploy_fail args found ran,
      of "\<lparr>ev_Type = ''message'', ev_Text = ''deploy'', ev_User = ''U123'',
        ev_Channel = ''D001''\<rparr>" "[]"]
    wf_cmds_deploy_fail name direct
  show ?thesis
    by simp
qed

section \<open>Registration\<close>

text \<open>
  Claim C7. When a handler is already registered under \<open>n\<close>, \<^verbatim>\<open>Process\<close> of another
  handler named \<open>n\<close> returns an error and the registry as it was, with the first
  handler still under \<open>n\<close>; \<^verbatim>\<open>Process\<close> of a handler whose name is not yet a key
  returns no error and the registry with exactly that one entry added.
\<close>

theorem Process_duplicate_or_fresh:
  assumes "map_of cmds n = Some h" and "Name c = n" and "map_of cmds' (Name c') = None"
  shows "Process cmds c = (cmds, Some (''Command with name '' @ n @ '' already exists'')) \<and>
    map_of (fst (Process cmds c)) n = Some h \<and>
    snd (Process cmds' c') = None \<and>
    fst (Process cmds' c') = cmds' @ [(Name c', c')] \<and>
    map_of (fst (Process cmds' c')) = (map_of cmds')(Name c' \<mapsto> c')"
proof -
  from assms(1,2) have "Process cmds c =
      (cmds, Some (''Command with name '' @ n @ '' already exists''))"
    by (simp add: Process_def)
  moreover from assms(3) have "Process cmds' c' = (AList.update (Name c') c' cmds', None)"
    by (simp add: Process_def)
  ultimately show ?thesis
    using assms(1) update_fresh [OF assms(3), of c'] update_conv' [of "Name c'" c' cmds']
    by simp
qed

theorem Process_duplicate_or_fresh_witness:
  "map_of [(''deploy'', deploy_ok)] ''deploy'' = Some deploy_ok \<and>
   Name deploy_fail = ''deploy'' \<and>
   map_of NewInput (Name deploy_ok) = None \<and>
   Process [(''deploy'', deploy_ok)] deploy_fail =
     ([(''deploy'', deploy_ok)], Some ''Command with name deploy already exists'') \<and>
   Process NewInput deploy_ok = ([(''deploy'', deploy_ok)], None)"
proof -
  have held: "map_of [(''deploy'', deploy_ok)] ''deploy'' = Some deploy_ok"
    by simp
  have same: "Name deploy_fail = ''deploy''"
    by (simp add: deploy_fail_def)
  have fresh: "map_of NewInput (Name deploy_ok) = None"
    by (simp add: NewInput_def)
  have added: "Process NewInput deploy_ok = ([(''deploy'', deploy_ok)], None)"
    by (simp add: Process_def NewInput_def deploy_ok_def)
  from Process_duplicate_or_fresh [OF held same fresh]
  have "Process [(''deploy'', deploy_ok)] deploy_fail =
      ([(''deploy'', deploy_ok)],
       Some (''Command with name '' @ ''deploy'' @ '' already exists''))"
    by (rule conjunct1)
  then have refused: "Process [(''deploy'', deploy_ok)] deploy_fail =
      ([(''deploy'', deploy_ok)], Some ''Command with name deploy already exists'')"
    by simp
  from held same fresh refused added show ?thesis
    by blast
qed

end
